theory Spec2Isabelle
  imports Main "HOL-Library.Word" "HOL-Library.Log_Nat"
begin

section \<open>The ring buffer of subarray-ring-buffer\<close>

text \<open>
  The class \<^verbatim>\<open>RingBuffer\<close> owns a Node.js \<^verbatim>\<open>Buffer\<close> of fixed size and a write offset.
  \<^verbatim>\<open>write(chunk)\<close> copies the chunk into the buffer and returns a view of the bytes just
  written: a \<^verbatim>\<open>Buffer\<close> (a subarray of the storage), a \<^verbatim>\<open>BufferList\<close> of two subarrays when
  the write wrapped around, or, in safe mode, a \<^verbatim>\<open>Proxy\<close> over a \<^verbatim>\<open>BufferList\<close>.
  Views share the storage, so the model keeps the storage in the state of the ring buffer
  and a view is the offsets it reads from.
\<close>

subsection \<open>Data\<close>

type_synonym byte = "8 word"

text \<open>
  The ways a call can throw: \<^verbatim>\<open>'chunk length exceeds size of ring buffer'\<close>,
  \<^verbatim>\<open>'buffer is no longer safe to access'\<close>, the range error
  (\<^verbatim>\<open>ERR_OUT_OF_RANGE\<close>) of \<^verbatim>\<open>Buffer.allocUnsafe\<close> and \<^verbatim>\<open>Buffer.copy\<close>, the error of an
  allocation the platform does not grant (\<^verbatim>\<open>'Array buffer allocation failed'\<close>), and the
  type error of reading a property of \<^verbatim>\<open>undefined\<close>.
\<close>

datatype error = ChunkTooLarge | StaleViewAccess | OutOfRange | AllocationFailed | TypeError

text \<open>A subarray of the storage: its byte offset and its length.\<close>

type_synonym subarr = "nat \<times> nat"

text \<open>
  What \<^verbatim>\<open>write\<close> returns: a plain \<^verbatim>\<open>Buffer\<close>, a \<^verbatim>\<open>BufferList\<close> of subarrays, or a
  \<^verbatim>\<open>Proxy\<close> whose target is a \<^verbatim>\<open>BufferList\<close> and whose handler closes over
  \<^verbatim>\<open>safeOffset\<close>.
\<close>

datatype view = Buffer subarr | BufferList "subarr list" | Proxy "subarr list" nat

record ring_buffer =
  buffer :: "byte list"
  offset :: nat
  strict :: bool
  safe :: bool
  totalOffset :: nat

subsection \<open>The primitives of \<^verbatim>\<open>node:buffer\<close> the class uses\<close>

text \<open>
  \<^verbatim>\<open>Buffer.allocUnsafe(size)\<close> throws a range error when \<^verbatim>\<open>size\<close> is negative or larger
  than \<^verbatim>\<open>buffer.constants.MAX_LENGTH\<close> (a constant of the platform, here the parameter
  \<open>kMaxLength\<close>). Size 0 needs no memory and always gives the empty buffer; the module
  itself allocates \<^verbatim>\<open>Buffer.allocUnsafe(0)\<close> for its empty buffer list. A positive size
  is an allocation, which the platform refuses when it has not that much memory to give,
  far below the largest length: the parameter \<open>avail\<close> is the largest size the platform
  grants at the time of the call. An allocation that succeeds returns \<^verbatim>\<open>size\<close> bytes of
  uninitialised memory: the parameter \<open>mem\<close> gives the byte found at each position.
\<close>

definition allocUnsafe ::
    "int \<Rightarrow> int \<Rightarrow> int \<Rightarrow> (nat \<Rightarrow> byte) \<Rightarrow> error + byte list" where
  "allocUnsafe kMaxLength avail sz mem =
     (if sz < 0 \<or> kMaxLength < sz then Inl OutOfRange
      else if sz = 0 then Inr []
      else if avail < sz then Inl AllocationFailed
      else Inr (map mem [0..<nat sz]))"

text \<open>
  The numbers of JavaScript are doubles. A sum of two byte counts is the double nearest to
  the exact sum, the one with the even significand when two are as near: exact up to
  \<open>2 ^ 53\<close>, a multiple of \<open>2 ^ (b - 53)\<close> for a sum of \<open>b > 53\<close> bits. (The sums of
  the class stay far below the largest double.)
\<close>

definition round_to :: "nat \<Rightarrow> nat \<Rightarrow> nat" where
  "round_to g x =
     (let q = x div g; r = x mod g
      in if 2 * r < g \<or> (2 * r = g \<and> even q) then q * g else (q + 1) * g)"

definition dbl :: "nat \<Rightarrow> nat" where
  "dbl x = round_to (2 ^ (floorlog 2 x - 53)) x"

text \<open>
  \<^verbatim>\<open>source.copy(target, targetStart, sourceStart, sourceEnd)\<close>: a range error when
  \<^verbatim>\<open>sourceStart\<close> lies beyond the source (negative arguments, also range errors, are no
  naturals: the one call that can pass a negative number is guarded in \<open>write_priv\<close>);
  nothing is copied when \<^verbatim>\<open>targetStart\<close> is at or beyond the end of the target or the
  source range is empty; otherwise as many bytes as the source range, the target and the
  source allow.
\<close>

definition copy :: "byte list \<Rightarrow> byte list \<Rightarrow> nat \<Rightarrow> nat \<Rightarrow> nat \<Rightarrow> error + byte list" where
  "copy source target targetStart sourceStart sourceEnd =
     (if length source < sourceStart then Inl OutOfRange
      else if length target \<le> targetStart \<or> sourceEnd \<le> sourceStart then Inr target
      else
        let nb = min (min (sourceEnd - sourceStart) (length target - targetStart))
                     (length source - sourceStart)
        in Inr (take targetStart target @ take nb (drop sourceStart source)
                @ drop (targetStart + nb) target))"

text \<open>
  \<^verbatim>\<open>buf.subarray(start, stop)\<close> on a buffer of length \<open>len\<close>: both indices are clamped to
  the length, and a stop before the start gives the empty subarray at the start.
\<close>

definition subarray :: "nat \<Rightarrow> nat \<Rightarrow> nat \<Rightarrow> subarr" where
  "subarray len start stop = (let b = min start len; e = min stop len in (b, e - b))"

text \<open>The bytes a subarray shows: the live storage at its offsets.\<close>

definition slice_of :: "byte list \<Rightarrow> subarr \<Rightarrow> byte list" where
  "slice_of storage s = take (snd s) (drop (fst s) storage)"

text \<open>The bytes of a \<^verbatim>\<open>BufferList\<close>: its subarrays one after the other.\<close>

definition bl_bytes :: "byte list \<Rightarrow> subarr list \<Rightarrow> byte list" where
  "bl_bytes storage segs = concat (map (slice_of storage) segs)"

text \<open>
  \<^verbatim>\<open>const emptyBufferList = new BufferList([Buffer.allocUnsafe(0)])\<close>: one subarray of
  length 0, over an allocation of its own of length 0.
\<close>

definition emptyBufferList :: "subarr list" where
  "emptyBufferList = [(0, 0)]"

text \<open>\<^verbatim>\<open>buf.toString('hex')\<close>: two lower-case hexadecimal digits for each byte.\<close>

definition hex_digit :: "nat \<Rightarrow> char" where
  "hex_digit d = ''0123456789abcdef'' ! d"

definition toString_hex :: "byte list \<Rightarrow> string" where
  "toString_hex bs = concat (map (\<lambda>b. [hex_digit (unat b div 16), hex_digit (unat b mod 16)]) bs)"

subsection \<open>The class\<close>

text \<open>
  \<^verbatim>\<open>constructor(size, strict = false, safe = false)\<close>: allocates the buffer and stores
  the two flags; the offset and the total offset start at 0. The constructor has no check
  of its own: it fails when the allocation does.
\<close>

definition RingBuffer_new ::
    "int \<Rightarrow> int \<Rightarrow> int \<Rightarrow> bool \<Rightarrow> bool \<Rightarrow> (nat \<Rightarrow> byte) \<Rightarrow> error + ring_buffer" where
  "RingBuffer_new kMaxLength avail sz strict_flag safe_flag mem =
     (case allocUnsafe kMaxLength avail sz mem of
        Inl e \<Rightarrow> Inl e
      | Inr b \<Rightarrow> Inr \<lparr>buffer = b, offset = 0, strict = strict_flag, safe = safe_flag,
                     totalOffset = 0\<rparr>)"

text \<open>
  The private method \<^verbatim>\<open>#write(chunk)\<close>. A call returns what it returned or threw,
  together with the state it left behind. The three branches in the order of the source:
  the chunk is longer than the buffer; the chunk does not fit behind the offset; it fits.
  In the second branch \<^verbatim>\<open>remaining = buffer.length - offset\<close> would be negative for an
  offset beyond the buffer, and the first \<^verbatim>\<open>copy\<close> rejects a negative \<^verbatim>\<open>sourceEnd\<close>.
\<close>

definition write_priv :: "ring_buffer \<Rightarrow> byte list \<Rightarrow> (error + view) \<times> ring_buffer" where
  "write_priv rb chunk =
     (if length (buffer rb) < length chunk then
        (if strict rb then (Inl ChunkTooLarge, rb)
         else
           (case copy chunk (buffer rb) 0 (length chunk - length (buffer rb)) (length chunk) of
              Inl e \<Rightarrow> (Inl e, rb)
            | Inr b \<Rightarrow> (Inr (Buffer (0, length b)), rb\<lparr>buffer := b\<rparr>)))
      else if length (buffer rb) < offset rb + length chunk then
        (if length (buffer rb) < offset rb then (Inl OutOfRange, rb)
         else
           let remaining = length (buffer rb) - offset rb in
           (case copy chunk (buffer rb) (offset rb) 0 remaining of
              Inl e \<Rightarrow> (Inl e, rb)
            | Inr b1 \<Rightarrow>
                (case copy chunk b1 0 remaining (length chunk) of
                   Inl e \<Rightarrow> (Inl e, rb\<lparr>buffer := b1\<rparr>)
                 | Inr b2 \<Rightarrow>
                     (Inr (BufferList
                            [subarray (length b2) (offset rb) (length b2),
                             subarray (length b2) 0 (length chunk - remaining)]),
                      rb\<lparr>buffer := b2, offset := length chunk - remaining\<rparr>))))
      else
        (case copy chunk (buffer rb) (offset rb) 0 (length chunk) of
           Inl e \<Rightarrow> (Inl e, rb)
         | Inr b \<Rightarrow>
             (Inr (Buffer (subarray (length b) (offset rb) (offset rb + length chunk))),
              rb\<lparr>buffer := b, offset := offset rb + length chunk\<rparr>)))"

text \<open>
  \<^verbatim>\<open>new BufferList([buffer])\<close> for a plain buffer; a buffer list stays as it is.
\<close>

fun as_BufferList :: "view \<Rightarrow> subarr list" where
  "as_BufferList (Buffer s) = [s]"
| "as_BufferList (BufferList segs) = segs"
| "as_BufferList (Proxy segs so) = segs"

text \<open>
  The public method \<^verbatim>\<open>write(chunk)\<close> (\<open>write\<close> is a command of Isar, hence the
  suffix). Without safe mode it is \<^verbatim>\<open>#write\<close>. In safe mode
  it takes \<^verbatim>\<open>safeOffset = totalOffset + buffer.length\<close> before the write, adds
  \<^verbatim>\<open>chunk.length\<close> to the total offset after it, and returns a proxy over a buffer list.
  When \<^verbatim>\<open>#write\<close> throws, the total offset is not touched. The total offset grows
  without bound, so its two sums are sums of doubles.
\<close>

definition write_pub :: "ring_buffer \<Rightarrow> byte list \<Rightarrow> (error + view) \<times> ring_buffer" where
  "write_pub rb chunk =
     (if \<not> safe rb then write_priv rb chunk
      else
        let safeOffset = dbl (totalOffset rb + length (buffer rb)) in
        (case write_priv rb chunk of
           (Inl e, rb') \<Rightarrow> (Inl e, rb')
         | (Inr v, rb') \<Rightarrow>
             (Inr (Proxy (as_BufferList v) safeOffset),
              rb'\<lparr>totalOffset := dbl (totalOffset rb' + length chunk)\<rparr>)))"

subsection \<open>Reading a view\<close>

text \<open>
  Every property read on a proxy runs the \<^verbatim>\<open>get\<close> trap: when the total offset of the
  ring buffer has gone beyond \<^verbatim>\<open>safeOffset\<close>, the trap throws in strict mode and reads
  the empty buffer list otherwise. \<open>view_bytes\<close> is the content a read sees
  (\<^verbatim>\<open>slice()\<close>); the length and \<^verbatim>\<open>toString\<close> are taken from it.
\<close>

fun view_bytes :: "ring_buffer \<Rightarrow> view \<Rightarrow> error + byte list" where
  "view_bytes rb (Buffer s) = Inr (slice_of (buffer rb) s)"
| "view_bytes rb (BufferList segs) = Inr (bl_bytes (buffer rb) segs)"
| "view_bytes rb (Proxy segs safeOffset) =
     (if safeOffset < totalOffset rb then
        (if strict rb then Inl StaleViewAccess else Inr (bl_bytes [] emptyBufferList))
      else Inr (bl_bytes (buffer rb) segs))"

definition view_length :: "ring_buffer \<Rightarrow> view \<Rightarrow> error + nat" where
  "view_length rb v = map_sum id length (view_bytes rb v)"

text \<open>
  Indexed access. On a plain buffer \<^verbatim>\<open>buf[k]\<close> is the byte at \<open>k\<close>, or \<^verbatim>\<open>undefined\<close>
  (\<open>None\<close>) beyond its length.
\<close>

definition seg_get :: "byte list \<Rightarrow> subarr \<Rightarrow> nat \<Rightarrow> byte option" where
  "seg_get storage s k =
     (if k < length (slice_of storage s) then Some (slice_of storage s ! k) else None)"

text \<open>
  On a buffer list, \<^verbatim>\<open>get(index)\<close> of the library \<^verbatim>\<open>bl\<close>: \<^verbatim>\<open>undefined\<close> for an index
  beyond the length; otherwise \<^verbatim>\<open>_offset(index)\<close> names a buffer of the list and a
  position in it, and the result is what that buffer has there. \<^verbatim>\<open>_offset(0)\<close> is
  buffer 0, position 0, whatever the length of buffer 0; for another index the loop takes
  the first buffer the index falls into, or the last buffer. \<open>bl_offset_loop\<close> is the loop
  over the lengths of the buffers, with the number of the buffer and the length before it.
\<close>

fun bl_offset_loop :: "nat list \<Rightarrow> nat \<Rightarrow> nat \<Rightarrow> nat \<Rightarrow> (nat \<times> nat) option" where
  "bl_offset_loop [] i tot off = None"
| "bl_offset_loop (l # ls) i tot off =
     (if off < tot + l \<or> ls = [] then Some (i, off - tot)
      else bl_offset_loop ls (Suc i) (tot + l) off)"

definition bl_offset :: "nat list \<Rightarrow> nat \<Rightarrow> (nat \<times> nat) option" where
  "bl_offset lens off = (if off = 0 then Some (0, 0) else bl_offset_loop lens 0 0 off)"

definition bl_get :: "byte list \<Rightarrow> subarr list \<Rightarrow> nat \<Rightarrow> error + byte option" where
  "bl_get storage segs index =
     (if length (bl_bytes storage segs) < index then Inr None
      else
        (case bl_offset (map (\<lambda>s. length (slice_of storage s)) segs) index of
           None \<Rightarrow> Inl TypeError
         | Some (i, k) \<Rightarrow>
             if i < length segs then Inr (seg_get storage (segs ! i) k) else Inl TypeError))"

fun view_get :: "ring_buffer \<Rightarrow> view \<Rightarrow> nat \<Rightarrow> error + byte option" where
  "view_get rb (Buffer s) i = Inr (seg_get (buffer rb) s i)"
| "view_get rb (BufferList segs) i = bl_get (buffer rb) segs i"
| "view_get rb (Proxy segs safeOffset) i =
     (if safeOffset < totalOffset rb then
        (if strict rb then Inl StaleViewAccess else bl_get [] emptyBufferList i)
      else bl_get (buffer rb) segs i)"

definition view_toString_hex :: "ring_buffer \<Rightarrow> view \<Rightarrow> error + string" where
  "view_toString_hex rb v = map_sum id toString_hex (view_bytes rb v)"

text \<open>\<^verbatim>\<open>Buffer.isBuffer(view)\<close>, the check the documentation gives to detect a wrap.\<close>

fun isBuffer :: "view \<Rightarrow> bool" where
  "isBuffer (Buffer s) = True"
| "isBuffer (BufferList segs) = False"
| "isBuffer (Proxy segs so) = False"

subsection \<open>Sequences of calls\<close>

text \<open>
  The state after a call of \<^verbatim>\<open>write\<close>, whether it returned or threw, and after a
  sequence of calls.
\<close>

definition write_state :: "ring_buffer \<Rightarrow> byte list \<Rightarrow> ring_buffer" where
  "write_state rb chunk = snd (write_pub rb chunk)"

fun writes :: "ring_buffer \<Rightarrow> byte list list \<Rightarrow> ring_buffer" where
  "writes rb [] = rb"
| "writes rb (c # cs) = writes (write_state rb c) cs"

text \<open>The offset never lies beyond the buffer.\<close>

definition inv :: "ring_buffer \<Rightarrow> bool" where
  "inv rb \<longleftrightarrow> offset rb \<le> length (buffer rb)"




subsection \<open>The buffers and chunks of the tests and of the example\<close>

text \<open>
  \<^verbatim>\<open>new RingBuffer(10, strict, safe)\<close>, on memory that happens to be zero, with the
  largest buffer length of a 64-bit platform and a gigabyte to give.
\<close>

definition new10 :: "bool \<Rightarrow> bool \<Rightarrow> ring_buffer" where
  "new10 strict_flag safe_flag =
     projr (RingBuffer_new 9007199254740991 1073741824 10 strict_flag safe_flag (\<lambda>i. 0))"

text \<open>\<^verbatim>\<open>Buffer.from(..., 'hex')\<close> for the chunks the tests and the example write.\<close>

definition hex_abcdef :: "byte list" where
  "hex_abcdef = [0xab, 0xcd, 0xef]"

definition hex_123456 :: "byte list" where
  "hex_123456 = [0x12, 0x34, 0x56]"

definition hex_7890fe :: "byte list" where
  "hex_7890fe = [0x78, 0x90, 0xfe]"

definition hex_dcba09 :: "byte list" where
  "hex_dcba09 = [0xdc, 0xba, 0x09]"

definition hex_ba :: "byte list" where
  "hex_ba = [0xba]"

definition hex_0123456789abcdeffedc :: "byte list" where
  "hex_0123456789abcdeffedc = [0x01, 0x23, 0x45, 0x67, 0x89, 0xab, 0xcd, 0xef, 0xfe, 0xdc]"

definition hex_1234567890abcdeffedcba :: "byte list" where
  "hex_1234567890abcdeffedcba =
     [0x12, 0x34, 0x56, 0x78, 0x90, 0xab, 0xcd, 0xef, 0xfe, 0xdc, 0xba]"

definition hex_abcdef12345678900987654321fedcba :: "byte list" where
  "hex_abcdef12345678900987654321fedcba =
     [0xab, 0xcd, 0xef, 0x12, 0x34, 0x56, 0x78, 0x90, 0x09, 0x87, 0x65, 0x43, 0x21, 0xfe,
      0xdc, 0xba]"

section \<open>Properties\<close>

subsection \<open>Sums of doubles\<close>

lemma round_to_lower: "q * g \<le> round_to g x" if "q = x div g"
  using that by (simp add: round_to_def Let_def)

lemma round_to_upper: "round_to g x \<le> (x div g + 1) * g"
  by (simp add: round_to_def Let_def)

lemma round_to_multiple_le:
  assumes "0 < g" "k * g \<le> x"
  shows "k * g \<le> round_to g x"
proof -
  have "k \<le> x div g"
    using assms by (simp add: less_eq_div_iff_mult_less_eq)
  then have "k * g \<le> (x div g) * g" by simp
  also have "\<dots> \<le> round_to g x" by (rule round_to_lower) simp
  finally show ?thesis .
qed

lemma round_to_le_multiple:
  assumes "0 < g" "x \<le> k * g"
  shows "round_to g x \<le> k * g"
proof (cases "x mod g = 0")
  case True
  then have "round_to g x = x"
    using assms(1) by (auto simp add: round_to_def Let_def)
  with assms show ?thesis by simp
next
  case False
  have "x div g < k"
  proof (rule ccontr)
    assume "\<not> x div g < k"
    then have "k \<le> x div g" by simp
    then have "k * g \<le> (x div g) * g" by (rule mult_le_mono1)
    moreover have "(x div g) * g < x"
      using False assms(1) by (metis div_mult_mod_eq less_add_same_cancel1 neq0_conv)
    ultimately show False using assms(2) by linarith
  qed
  then have "(x div g + 1) * g \<le> k * g"
    by (intro mult_le_mono1) simp
  with round_to_upper [of g x] show ?thesis by simp
qed

lemma round_to_mono:
  assumes "0 < g" "x \<le> y"
  shows "round_to g x \<le> round_to g y"
proof (cases "x div g = y div g")
  case True
  have "x mod g \<le> y mod g"
    using assms(2) True by (metis add_le_cancel_left div_mult_mod_eq mult.commute)
  then show ?thesis
    using True by (auto simp add: round_to_def Let_def)
next
  case False
  have "x div g \<le> y div g" using assms(2) by (rule div_le_mono)
  with False have "x div g + 1 \<le> y div g" by simp
  then have "(x div g + 1) * g \<le> (y div g) * g" by (rule mult_le_mono1)
  also have "\<dots> \<le> round_to g y" by (rule round_to_lower) simp
  finally show ?thesis using round_to_upper [of g x] by simp
qed

lemma dbl_small: "x < 2 ^ 53 \<Longrightarrow> dbl x = x"
proof -
  assume "x < 2 ^ 53"
  then have "floorlog 2 x \<le> 53" by (simp add: floorlog_le_iff)
  then show ?thesis by (simp add: dbl_def round_to_def)
qed

lemma dbl_mono:
  assumes "x \<le> y"
  shows "dbl x \<le> dbl y"
proof (cases "floorlog 2 x = floorlog 2 y")
  case True
  then show ?thesis
    unfolding dbl_def using assms by (simp add: round_to_mono)
next
  case False
  with assms have lt: "floorlog 2 x < floorlog 2 y"
    using floorlog_mono [of x y 2] by simp
  then have ypos: "0 < y" by (auto simp add: floorlog_def split: if_splits)
  let ?bx = "floorlog 2 x" and ?by = "floorlog 2 y"
  have gx: "(0::nat) < 2 ^ (?bx - 53)" and gy: "(0::nat) < 2 ^ (?by - 53)" by simp_all
  have xub: "x \<le> 2 ^ ?bx"
  proof (cases "x = 0")
    case False
    then show ?thesis using floorlog_bounds [of x 2] by simp
  qed simp
  have "(2::nat) ^ ?bx = 2 ^ (?bx - (?bx - 53)) * 2 ^ (?bx - 53)"
    by (simp add: power_add [symmetric])
  then have "dbl x \<le> 2 ^ ?bx"
    unfolding dbl_def using round_to_le_multiple [OF gx, of x "2 ^ (?bx - (?bx - 53))"] xub
    by simp
  also have "(2::nat) ^ ?bx \<le> 2 ^ (?by - 1)"
    using lt by (intro power_increasing) simp_all
  also have "\<dots> \<le> dbl y"
  proof -
    have ylb: "2 ^ (?by - 1) \<le> y" using floorlog_bounds [of y 2] ypos by simp
    have "(2::nat) ^ (?by - 1) = 2 ^ (?by - 1 - (?by - 53)) * 2 ^ (?by - 53)"
      using lt by (simp add: power_add [symmetric])
    then show ?thesis
      unfolding dbl_def
      using round_to_multiple_le [OF gy, of "2 ^ (?by - 1 - (?by - 53))" y] ylb by simp
  qed
  finally show ?thesis .
qed

lemma dbl_power: "dbl (2 ^ 53) = 2 ^ 53"
proof -
  have "floorlog 2 (2 ^ 53 :: nat) = 54"
    using floorlog_power [of 1 2 53] by (simp add: floorlog_def)
  then show ?thesis by (simp add: dbl_def round_to_def)
qed

lemma dbl_exact: "x \<le> 2 ^ 53 \<Longrightarrow> dbl x = x"
  using dbl_small [of x] dbl_power by (cases "x = 2 ^ 53") auto


lemma dbl_stuck: "dbl (2 ^ 53 + 1) = 2 ^ 53"
proof -
  have "floorlog 2 (2 ^ 53 + 1 :: nat) \<le> 54" by (simp add: floorlog_le_iff)
  moreover have "54 \<le> floorlog 2 (2 ^ 53 + 1 :: nat)"
    using floorlog_ge_SucI [of 2 53 "2 ^ 53 + 1"] by simp
  ultimately have "floorlog 2 (2 ^ 53 + 1 :: nat) = 54" by simp
  then show ?thesis by (simp add: dbl_def round_to_def)
qed


lemma fresh_at_birth: "n \<le> cap \<Longrightarrow> \<not> dbl (t + cap) < dbl (t + n)"
  using dbl_mono [of "t + n" "t + cap"] by simp

subsection \<open>What \<^verbatim>\<open>copy\<close> does at the call sites of \<^verbatim>\<open>#write\<close>\<close>

lemma copy_fit:
  "ts + length src \<le> length tgt \<Longrightarrow>
   copy src tgt ts 0 (length src) = Inr (take ts tgt @ src @ drop (ts + length src) tgt)"
  by (auto simp: copy_def Let_def min_def)

lemma copy_head:
  "ts \<le> length tgt \<Longrightarrow> length tgt - ts \<le> length src \<Longrightarrow>
   copy src tgt ts 0 (length tgt - ts) = Inr (take ts tgt @ take (length tgt - ts) src)"
  by (auto simp: copy_def Let_def min_def)

lemma copy_tail:
  "r \<le> length src \<Longrightarrow> length src - r \<le> length tgt \<Longrightarrow>
   copy src tgt 0 r (length src) = Inr (drop r src @ drop (length src - r) tgt)"
  by (auto simp: copy_def Let_def min_def)

lemma write_priv_reject:
  "length (buffer rb) < length chunk \<Longrightarrow> strict rb \<Longrightarrow>
   write_priv rb chunk = (Inl ChunkTooLarge, rb)"
  by (simp add: write_priv_def)

lemma write_priv_oversize:
  assumes "length (buffer rb) < length chunk" "\<not> strict rb"
  shows "write_priv rb chunk =
    (Inr (Buffer (0, length (buffer rb))),
     rb\<lparr>buffer := drop (length chunk - length (buffer rb)) chunk\<rparr>)"
proof -
  have "copy chunk (buffer rb) 0 (length chunk - length (buffer rb)) (length chunk)
      = Inr (drop (length chunk - length (buffer rb)) chunk)"
    using assms copy_tail [of "length chunk - length (buffer rb)" chunk "buffer rb"] by simp
  with assms show ?thesis by (simp add: write_priv_def)
qed

lemma write_priv_fit:
  assumes "offset rb + length chunk \<le> length (buffer rb)"
  shows "write_priv rb chunk =
    (Inr (Buffer (offset rb, length chunk)),
     rb\<lparr>buffer := take (offset rb) (buffer rb) @ chunk
                    @ drop (offset rb + length chunk) (buffer rb),
        offset := offset rb + length chunk\<rparr>)"
  using assms by (auto simp add: write_priv_def copy_fit subarray_def min_def)

lemma write_priv_wrap:
  assumes "length chunk \<le> length (buffer rb)"
      and "length (buffer rb) < offset rb + length chunk"
      and "offset rb \<le> length (buffer rb)"
  shows "write_priv rb chunk =
    (Inr (BufferList [(offset rb, length (buffer rb) - offset rb),
                      (0, length chunk - (length (buffer rb) - offset rb))]),
     rb\<lparr>buffer := drop (length (buffer rb) - offset rb) chunk
                    @ drop (length chunk - (length (buffer rb) - offset rb))
                        (take (offset rb) (buffer rb)
                         @ take (length (buffer rb) - offset rb) chunk),
        offset := length chunk - (length (buffer rb) - offset rb)\<rparr>)"
proof -
  let ?r = "length (buffer rb) - offset rb"
  let ?b1 = "take (offset rb) (buffer rb) @ take ?r chunk"
  have c1: "copy chunk (buffer rb) (offset rb) 0 ?r = Inr ?b1"
    using assms by (intro copy_head) auto
  have len1: "length ?b1 = length (buffer rb)"
    using assms by simp
  have c2: "copy chunk ?b1 0 ?r (length chunk) = Inr (drop ?r chunk @ drop (length chunk - ?r) ?b1)"
    using assms by (intro copy_tail) auto
  have len2: "length (drop ?r chunk @ drop (length chunk - ?r) ?b1) = length (buffer rb)"
    using assms by auto
  show ?thesis
    using assms c1 c2 len2 by (auto simp add: write_priv_def Let_def subarray_def min_def simp del: drop_append take_append)
qed


lemma write_priv_cases:
  fixes rb :: ring_buffer and chunk :: "byte list"
  obtains (reject) "length (buffer rb) < length chunk" "strict rb"
  | (oversize) "length (buffer rb) < length chunk" "\<not> strict rb"
  | (broken) "length chunk \<le> length (buffer rb)" "length (buffer rb) < offset rb"
  | (wrap) "length chunk \<le> length (buffer rb)" "offset rb \<le> length (buffer rb)"
      "length (buffer rb) < offset rb + length chunk"
  | (fit) "offset rb + length chunk \<le> length (buffer rb)"
  by linarith

lemma write_priv_broken:
  "length chunk \<le> length (buffer rb) \<Longrightarrow> length (buffer rb) < offset rb \<Longrightarrow>
   write_priv rb chunk = (Inl OutOfRange, rb)"
  by (simp add: write_priv_def)

lemma write_priv_length:
  "length (buffer (snd (write_priv rb chunk))) = length (buffer rb)"
  by (cases rule: write_priv_cases [where rb = rb and chunk = chunk])
     (simp_all add: write_priv_reject write_priv_oversize write_priv_broken write_priv_wrap
        write_priv_fit)

lemma write_priv_flags:
  "strict (snd (write_priv rb chunk)) = strict rb"
  "safe (snd (write_priv rb chunk)) = safe rb"
  "totalOffset (snd (write_priv rb chunk)) = totalOffset rb"
  by (cases rule: write_priv_cases [where rb = rb and chunk = chunk];
      simp add: write_priv_reject write_priv_oversize write_priv_broken write_priv_wrap
        write_priv_fit)+

lemma write_priv_inv: "inv rb \<Longrightarrow> inv (snd (write_priv rb chunk))"
  unfolding inv_def
  by (cases rule: write_priv_cases [where rb = rb and chunk = chunk])
     (simp_all add: write_priv_reject write_priv_oversize write_priv_broken write_priv_wrap
        write_priv_fit)


subsection \<open>The public method\<close>

lemma write_pub_fst:
  "fst (write_pub rb chunk) =
     (if safe rb
      then map_sum id (\<lambda>v. Proxy (as_BufferList v) (dbl (totalOffset rb + length (buffer rb))))
             (fst (write_priv rb chunk))
      else fst (write_priv rb chunk))"
  by (auto simp: write_pub_def Let_def split: prod.splits sum.splits)

lemma write_pub_snd:
  "snd (write_pub rb chunk) =
     (if safe rb \<and> \<not> isl (fst (write_priv rb chunk))
      then (snd (write_priv rb chunk))
             \<lparr>totalOffset := dbl (totalOffset (snd (write_priv rb chunk)) + length chunk)\<rparr>
      else snd (write_priv rb chunk))"
  by (auto simp: write_pub_def Let_def split: prod.splits sum.splits)

lemma write_pub_buffer: "buffer (snd (write_pub rb chunk)) = buffer (snd (write_priv rb chunk))"
  by (simp add: write_pub_snd)

lemma write_pub_offset: "offset (snd (write_pub rb chunk)) = offset (snd (write_priv rb chunk))"
  by (simp add: write_pub_snd)

lemma write_pub_length: "length (buffer (snd (write_pub rb chunk))) = length (buffer rb)"
  by (simp add: write_pub_buffer write_priv_length)


lemma write_pub_inv: "inv rb \<Longrightarrow> inv (snd (write_pub rb chunk))"
  using write_priv_inv [of rb chunk] by (simp add: inv_def write_pub_buffer write_pub_offset)

lemma write_pub_totalOffset:
  "totalOffset (snd (write_pub rb chunk)) =
     (if safe rb \<and> \<not> isl (fst (write_pub rb chunk)) then dbl (totalOffset rb + length chunk)
      else totalOffset rb)"
  by (cases "fst (write_priv rb chunk)") (simp_all add: write_pub_snd write_pub_fst write_priv_flags)

lemma bl_bytes_wrap:
  assumes "length chunk \<le> length b" "length b < c + length chunk" "c \<le> length b"
  shows "bl_bytes (drop (length b - c) chunk @ drop (length chunk - (length b - c)) (take c b @ take (length b - c) chunk))
    [(c, length b - c), (0, length chunk - (length b - c))] = chunk"
proof -
  let ?r = "length b - c"
  let ?st = "drop ?r chunk @ drop (length chunk - ?r) (take c b @ take ?r chunk)"
  have l: "length (drop ?r chunk) = length chunk - ?r" by simp
  have a: "take (length chunk - ?r) ?st = drop ?r chunk"
    using l by simp
  have "drop c ?st = take ?r chunk"
    using assms by simp
  then have b: "take ?r (drop c ?st) = take ?r chunk" by simp
  show ?thesis
    unfolding bl_bytes_def slice_of_def using a b by (simp del: drop_append take_append)
qed

lemma write_pub_wrap:
  assumes "inv rb" "length chunk \<le> length (buffer rb)"
      and "length (buffer rb) < offset rb + length chunk"
  shows "write_pub rb chunk =
    (Inr (if safe rb
          then Proxy [(offset rb, length (buffer rb) - offset rb),
                      (0, length chunk - (length (buffer rb) - offset rb))]
                 (dbl (totalOffset rb + length (buffer rb)))
          else BufferList [(offset rb, length (buffer rb) - offset rb),
                      (0, length chunk - (length (buffer rb) - offset rb))]),
     rb\<lparr>buffer := drop (length (buffer rb) - offset rb) chunk
                    @ drop (length chunk - (length (buffer rb) - offset rb))
                        (take (offset rb) (buffer rb)
                         @ take (length (buffer rb) - offset rb) chunk),
        offset := length chunk - (length (buffer rb) - offset rb),
        totalOffset := (if safe rb then dbl (totalOffset rb + length chunk) else totalOffset rb)\<rparr>)"
  using assms by (simp add: write_pub_def write_priv_wrap inv_def)

lemma write_pub_fit:
  assumes "offset rb + length chunk \<le> length (buffer rb)"
  shows "write_pub rb chunk =
    (Inr (if safe rb
          then Proxy [(offset rb, length chunk)] (dbl (totalOffset rb + length (buffer rb)))
          else Buffer (offset rb, length chunk)),
     rb\<lparr>buffer := take (offset rb) (buffer rb) @ chunk
                    @ drop (offset rb + length chunk) (buffer rb),
        offset := offset rb + length chunk,
        totalOffset := (if safe rb then dbl (totalOffset rb + length chunk) else totalOffset rb)\<rparr>)"
  using assms by (simp add: write_pub_def write_priv_fit)

lemma write_pub_oversize:
  assumes "length (buffer rb) < length chunk" "\<not> strict rb"
  shows "write_pub rb chunk =
    (Inr (if safe rb
          then Proxy [(0, length (buffer rb))] (dbl (totalOffset rb + length (buffer rb)))
          else Buffer (0, length (buffer rb))),
     rb\<lparr>buffer := drop (length chunk - length (buffer rb)) chunk,
        totalOffset := (if safe rb then dbl (totalOffset rb + length chunk) else totalOffset rb)\<rparr>)"
  using assms by (simp add: write_pub_def write_priv_oversize)

lemma write_pub_reject:
  "length (buffer rb) < length chunk \<Longrightarrow> strict rb \<Longrightarrow>
   write_pub rb chunk = (Inl ChunkTooLarge, rb)"
  by (simp add: write_pub_def write_priv_reject)

lemma bl_bytes_fit:
  "c + length chunk \<le> length b \<Longrightarrow>
   bl_bytes (take c b @ chunk @ drop (c + length chunk) b) [(c, length chunk)] = chunk"
  by (simp add: bl_bytes_def slice_of_def)

subsection \<open>Running the examples\<close>

lemma new10_eq:
  "new10 st sf = \<lparr>buffer = [0, 0, 0, 0, 0, 0, 0, 0, 0, 0], offset = 0, strict = st, safe = sf,
     totalOffset = 0\<rparr>"
  by (simp add: new10_def RingBuffer_new_def allocUnsafe_def upt_conv_Cons)

lemmas hex_simps = hex_abcdef_def hex_123456_def hex_7890fe_def hex_dcba09_def hex_ba_def
  hex_0123456789abcdeffedc_def hex_1234567890abcdeffedcba_def
  hex_abcdef12345678900987654321fedcba_def

lemma write_state_fit:
  "offset rb + length chunk \<le> length (buffer rb) \<Longrightarrow>
   write_state rb chunk =
     rb\<lparr>buffer := take (offset rb) (buffer rb) @ chunk
                    @ drop (offset rb + length chunk) (buffer rb),
        offset := offset rb + length chunk,
        totalOffset := (if safe rb then dbl (totalOffset rb + length chunk) else totalOffset rb)\<rparr>"
  by (simp add: write_state_def write_pub_fit)

lemma after3:
  "writes (new10 st sf) [hex_abcdef, hex_123456, hex_7890fe] =
     \<lparr>buffer = [0xab, 0xcd, 0xef, 0x12, 0x34, 0x56, 0x78, 0x90, 0xfe, 0], offset = 9,
      strict = st, safe = sf, totalOffset = (if sf then 9 else 0)\<rparr>"
  by (simp add: new10_eq write_state_fit hex_simps dbl_exact)

lemma write_state_wrap:
  "inv rb \<Longrightarrow> length chunk \<le> length (buffer rb) \<Longrightarrow>
   length (buffer rb) < offset rb + length chunk \<Longrightarrow>
   write_state rb chunk =
     rb\<lparr>buffer := drop (length (buffer rb) - offset rb) chunk
                    @ drop (length chunk - (length (buffer rb) - offset rb))
                        (take (offset rb) (buffer rb)
                         @ take (length (buffer rb) - offset rb) chunk),
        offset := length chunk - (length (buffer rb) - offset rb),
        totalOffset := (if safe rb then dbl (totalOffset rb + length chunk) else totalOffset rb)\<rparr>"
  by (simp add: write_state_def write_pub_wrap)

lemma write_state_oversize:
  "length (buffer rb) < length chunk \<Longrightarrow> \<not> strict rb \<Longrightarrow>
   write_state rb chunk =
     rb\<lparr>buffer := drop (length chunk - length (buffer rb)) chunk,
        totalOffset := (if safe rb then dbl (totalOffset rb + length chunk) else totalOffset rb)\<rparr>"
  by (simp add: write_state_def write_pub_oversize)


lemma after_full:
  "writes (new10 st sf) [hex_0123456789abcdeffedc] =
     \<lparr>buffer = [0x01, 0x23, 0x45, 0x67, 0x89, 0xab, 0xcd, 0xef, 0xfe, 0xdc], offset = 10,
      strict = st, safe = sf, totalOffset = (if sf then 10 else 0)\<rparr>"
  by (simp add: new10_eq write_state_fit hex_simps dbl_exact)

lemma write_pub_read_back:
  assumes "inv rb" "length chunk \<le> length (buffer rb)"
  shows "\<exists>v rb'. write_pub rb chunk = (Inr v, rb') \<and> view_bytes rb' v = Inr chunk"
proof (cases "length (buffer rb) < offset rb + length chunk")
  case True
  let ?segs = "[(offset rb, length (buffer rb) - offset rb),
                (0, length chunk - (length (buffer rb) - offset rb))]"
  let ?st = "drop (length (buffer rb) - offset rb) chunk
                    @ drop (length chunk - (length (buffer rb) - offset rb))
                        (take (offset rb) (buffer rb)
                         @ take (length (buffer rb) - offset rb) chunk)"
  have "bl_bytes ?st ?segs = chunk"
    using assms True by (intro bl_bytes_wrap) (auto simp: inv_def)
  with assms True show ?thesis
    by (simp add: write_pub_wrap fresh_at_birth del: drop_append take_append)
next
  case False
  then have fit: "offset rb + length chunk \<le> length (buffer rb)" by simp
  have "bl_bytes (take (offset rb) (buffer rb) @ chunk
                    @ drop (offset rb + length chunk) (buffer rb)) [(offset rb, length chunk)] = chunk"
    using fit by (rule bl_bytes_fit)
  then show ?thesis
    using fit by (simp add: write_pub_fit bl_bytes_def fresh_at_birth del: drop_append take_append)
qed

lemma write_state_inv: "inv rb \<Longrightarrow> inv (write_state rb chunk)"
  by (simp add: write_state_def write_pub_inv)

lemma write_state_length: "length (buffer (write_state rb chunk)) = length (buffer rb)"
  by (simp add: write_state_def write_pub_length)

lemma writes_inv: "inv rb \<Longrightarrow> inv (writes rb cs)"
  by (induction cs arbitrary: rb) (simp_all add: write_state_inv)

lemma writes_length: "length (buffer (writes rb cs)) = length (buffer rb)"
  by (induction cs arbitrary: rb) (simp_all add: write_state_length)

lemma writes_append: "writes rb (cs @ ds) = writes (writes rb cs) ds"
  by (induction cs arbitrary: rb) simp_all

lemma RingBuffer_new_inv:
  "RingBuffer_new kMaxLength avail sz strict_flag safe_flag mem = Inr rb \<Longrightarrow>
   inv rb \<and> length (buffer rb) = nat sz"
  by (auto simp add: RingBuffer_new_def allocUnsafe_def inv_def split: if_splits)

lemma toString_hex_Cons:
  "toString_hex (b # bs) = hex_digit (unat b div 16) # hex_digit (unat b mod 16) # toString_hex bs"
  "toString_hex [] = []"
  by (simp_all add: toString_hex_def)

lemma write_pub_oversize_keeps:
  assumes "length (buffer rb) < length chunk" "\<not> strict rb"
  shows "buffer (snd (write_pub rb chunk)) = drop (length chunk - length (buffer rb)) chunk
     \<and> as_BufferList (projr (fst (write_pub rb chunk))) = [(0, length (buffer rb))]
     \<and> offset (snd (write_pub rb chunk)) = offset rb"
  using assms by (simp add: write_pub_oversize)

subsection \<open>Reading around the end of the buffer\<close>





lemma write_priv_offset:
  assumes "inv rb" "length chunk' \<le> length (buffer rb)"
  shows "offset (snd (write_priv rb chunk')) =
     (if length (buffer rb) < offset rb + length chunk'
      then offset rb + length chunk' - length (buffer rb) else offset rb + length chunk')"
  using assms
  by (cases rule: write_priv_cases [where rb = rb and chunk = chunk'])
     (auto simp add: write_priv_wrap write_priv_fit inv_def)


subsection \<open>A chunk stays whole until the buffer has gone round\<close>

lemma write_pub_ok:
  assumes "inv rb" "length chunk \<le> length (buffer rb)"
  shows "\<not> isl (fst (write_pub rb chunk))"
  using write_pub_read_back [OF assms] by auto











subsection \<open>Reading a safe view\<close>






text \<open>
  Two examples on a safe buffer of 10 bytes. After a write that fills the buffer, the view of
  the next byte has an empty first segment, and \<^verbatim>\<open>get(0)\<close> on it is \<^verbatim>\<open>undefined\<close> while
  \<^verbatim>\<open>slice()\<close> reads the byte. The view of a chunk longer than the buffer is past its
  \<^verbatim>\<open>safeOffset\<close> when it is returned, and reads as empty.
\<close>

lemma get0_undefined_after_full:
  "write_pub (writes (new10 False True) [hex_0123456789abcdeffedc]) hex_ba
     = (Inr (Proxy [(10, 0), (0, 1)] 20),
        writes (new10 False True) [hex_0123456789abcdeffedc, hex_ba])
   \<and> view_bytes (writes (new10 False True) [hex_0123456789abcdeffedc, hex_ba])
        (Proxy [(10, 0), (0, 1)] 20) = Inr hex_ba
   \<and> view_get (writes (new10 False True) [hex_0123456789abcdeffedc, hex_ba])
        (Proxy [(10, 0), (0, 1)] 20) 0 = Inr None"
  by (simp add: new10_eq write_state_fit write_state_wrap write_pub_wrap inv_def
      hex_0123456789abcdeffedc_def hex_ba_def dbl_exact bl_bytes_def slice_of_def
      bl_get_def bl_offset_def seg_get_def)

lemma oversized_safe_view_reads_empty:
  "write_pub (new10 False True) hex_abcdef12345678900987654321fedcba
     = (Inr (Proxy [(0, 10)] 10),
        writes (new10 False True) [hex_abcdef12345678900987654321fedcba])
   \<and> totalOffset (writes (new10 False True) [hex_abcdef12345678900987654321fedcba]) = 16
   \<and> view_length (writes (new10 False True) [hex_abcdef12345678900987654321fedcba])
        (Proxy [(0, 10)] 10) = Inr 0"
  by (simp add: new10_eq write_state_oversize write_pub_oversize
      hex_abcdef12345678900987654321fedcba_def dbl_exact view_length_def bl_bytes_def
      slice_of_def emptyBufferList_def)

subsection \<open>A write that wraps around\<close>

text \<open>
  C1. A write of a chunk no longer than the buffer that does not fit behind the offset
  returns a view of two segments, the storage from the offset to its end and the storage
  from 0 to \<open>n - remaining\<close>; the view has length \<open>n\<close>, the two segments read one after
  the other are the chunk, and the offset is \<open>n - remaining\<close> afterwards. In safe mode
  the two segments are the target of the proxy, which reads the same right after the write.
\<close>

theorem C1_wrap_view_reads_chunk:
  assumes "inv rb" "length chunk \<le> length (buffer rb)"
      and "length (buffer rb) < offset rb + length chunk"
  shows "\<exists>v rb'. write_pub rb chunk = (Inr v, rb')
     \<and> as_BufferList v = [(offset rb, length (buffer rb) - offset rb),
                          (0, length chunk - (length (buffer rb) - offset rb))]
     \<and> \<not> isBuffer v
     \<and> view_length rb' v = Inr (length chunk)
     \<and> view_bytes rb' v = Inr chunk
     \<and> slice_of (buffer rb') (offset rb, length (buffer rb) - offset rb)
         @ slice_of (buffer rb') (0, length chunk - (length (buffer rb) - offset rb)) = chunk
     \<and> offset rb' = length chunk - (length (buffer rb) - offset rb)"
proof -
  let ?segs = "[(offset rb, length (buffer rb) - offset rb),
                (0, length chunk - (length (buffer rb) - offset rb))]"
  let ?st = "drop (length (buffer rb) - offset rb) chunk
                    @ drop (length chunk - (length (buffer rb) - offset rb))
                        (take (offset rb) (buffer rb)
                         @ take (length (buffer rb) - offset rb) chunk)"
  have rd: "bl_bytes ?st ?segs = chunk"
    using assms by (intro bl_bytes_wrap) (auto simp: inv_def)
  then have cat: "slice_of ?st (offset rb, length (buffer rb) - offset rb)
         @ slice_of ?st (0, length chunk - (length (buffer rb) - offset rb)) = chunk"
    by (simp add: bl_bytes_def)
  show ?thesis
  proof (cases "safe rb")
    case True
    with assms rd cat show ?thesis
      by (simp add: write_pub_wrap view_length_def fresh_at_birth del: drop_append take_append)
  next
    case False
    with assms rd cat show ?thesis
      by (simp add: write_pub_wrap view_length_def fresh_at_birth del: drop_append take_append)
  qed
qed

theorem C1_wrap_view_reads_chunk_witness:
  "inv (writes (new10 False False) [hex_abcdef, hex_123456, hex_7890fe])
   \<and> length hex_dcba09 \<le> length (buffer (writes (new10 False False) [hex_abcdef, hex_123456, hex_7890fe]))
   \<and> length (buffer (writes (new10 False False) [hex_abcdef, hex_123456, hex_7890fe]))
       < offset (writes (new10 False False) [hex_abcdef, hex_123456, hex_7890fe]) + length hex_dcba09
   \<and> (\<exists>v rb'. write_pub (writes (new10 False False) [hex_abcdef, hex_123456, hex_7890fe]) hex_dcba09
          = (Inr v, rb')
        \<and> as_BufferList v = [(9, 1), (0, 2)] \<and> \<not> isBuffer v
        \<and> view_length rb' v = Inr 3 \<and> view_bytes rb' v = Inr hex_dcba09
        \<and> slice_of (buffer rb') (9, 1) @ slice_of (buffer rb') (0, 2) = hex_dcba09
        \<and> offset rb' = 2)"
proof -
  let ?rb = "writes (new10 False False) [hex_abcdef, hex_123456, hex_7890fe]"
  have h1: "inv ?rb" unfolding after3 by (simp add: inv_def)
  have h2: "length hex_dcba09 \<le> length (buffer ?rb)"
    unfolding after3 by (simp add: hex_dcba09_def)
  have h3: "length (buffer ?rb) < offset ?rb + length hex_dcba09"
    unfolding after3 by (simp add: hex_dcba09_def)
  have e: "length hex_dcba09 = 3" "length (buffer ?rb) = 10" "offset ?rb = 9"
    unfolding after3 by (simp_all add: hex_dcba09_def)
  show ?thesis
    using h1 h2 h3 C1_wrap_view_reads_chunk [OF h1 h2 h3] unfolding e by simp
qed


text \<open>
  C10. In the wrapping branch the second segment is never empty: its length is
  \<open>offset + n - capacity\<close>, at least 1. The first segment is empty exactly when the
  offset is at the end of the buffer before the write, and the write then still returns a
  buffer list of two segments, which \<^verbatim>\<open>Buffer.isBuffer\<close> does not take for a buffer.
\<close>

theorem C10_wrap_segment_lengths:
  assumes "inv rb" "length chunk \<le> length (buffer rb)"
      and "length (buffer rb) < offset rb + length chunk"
  shows "\<exists>s1 s2. fst (write_priv rb chunk) = Inr (BufferList [s1, s2])
     \<and> snd s2 = offset rb + length chunk - length (buffer rb) \<and> 1 \<le> snd s2
     \<and> (snd s1 = 0 \<longleftrightarrow> offset rb = length (buffer rb))
     \<and> \<not> isl (fst (write_pub rb chunk))
     \<and> as_BufferList (projr (fst (write_pub rb chunk))) = [s1, s2]
     \<and> \<not> isBuffer (projr (fst (write_pub rb chunk)))"
  using assms by (auto simp add: write_priv_wrap write_pub_wrap inv_def)

theorem C10_wrap_segment_lengths_witness:
  "inv (writes (new10 True False) [hex_0123456789abcdeffedc])
   \<and> length hex_ba \<le> length (buffer (writes (new10 True False) [hex_0123456789abcdeffedc]))
   \<and> length (buffer (writes (new10 True False) [hex_0123456789abcdeffedc]))
       < offset (writes (new10 True False) [hex_0123456789abcdeffedc]) + length hex_ba
   \<and> fst (write_priv (writes (new10 True False) [hex_0123456789abcdeffedc]) hex_ba)
       = Inr (BufferList [(10, 0), (0, 1)])
   \<and> \<not> isBuffer (projr (fst (write_pub (writes (new10 True False) [hex_0123456789abcdeffedc]) hex_ba)))"
proof -
  let ?rb = "writes (new10 True False) [hex_0123456789abcdeffedc]"
  have h1: "inv ?rb" unfolding after_full by (simp add: inv_def)
  have h2: "length hex_ba \<le> length (buffer ?rb)" unfolding after_full by (simp add: hex_ba_def)
  have h3: "length (buffer ?rb) < offset ?rb + length hex_ba"
    unfolding after_full by (simp add: hex_ba_def)
  have e: "fst (write_priv ?rb hex_ba) = Inr (BufferList [(10, 0), (0, 1)])"
    using h1 h2 h3 unfolding after_full by (simp add: write_priv_wrap hex_ba_def)
  show ?thesis
    using h1 h2 h3 e C10_wrap_segment_lengths [OF h1 h2 h3] by auto
qed

subsection \<open>Strict mode\<close>

text \<open>
  C5. In strict mode a chunk longer than the buffer is rejected with
  \<^verbatim>\<open>'chunk length exceeds size of ring buffer'\<close> and the state after the call is the
  state before it: buffer, offset and total offset. A write of a chunk that fits, made on
  the state the rejected call left, returns a view that reads the chunk.
\<close>

theorem C5_strict_reject_is_atomic:
  assumes "strict rb" "length (buffer rb) < length chunk"
  shows "write_pub rb chunk = (Inl ChunkTooLarge, rb)
     \<and> (\<forall>chunk2. inv rb \<and> length chunk2 \<le> length (buffer rb) \<longrightarrow>
           (\<exists>v rb2. write_pub (snd (write_pub rb chunk)) chunk2 = (Inr v, rb2)
              \<and> view_bytes rb2 v = Inr chunk2))"
  using assms by (simp add: write_pub_reject write_pub_read_back)

theorem C5_strict_reject_is_atomic_witness:
  "strict (new10 True False)
   \<and> length (buffer (new10 True False)) < length hex_1234567890abcdeffedcba
   \<and> inv (new10 True False) \<and> length hex_abcdef \<le> length (buffer (new10 True False))
   \<and> write_pub (new10 True False) hex_1234567890abcdeffedcba
       = (Inl ChunkTooLarge, new10 True False)
   \<and> (\<exists>v rb2. write_pub (snd (write_pub (new10 True False) hex_1234567890abcdeffedcba))
                 hex_abcdef = (Inr v, rb2)
        \<and> view_bytes rb2 v = Inr hex_abcdef)"
proof -
  have h1: "strict (new10 True False)" by (simp add: new10_eq)
  have h2: "length (buffer (new10 True False)) < length hex_1234567890abcdeffedcba"
    by (simp add: new10_eq hex_1234567890abcdeffedcba_def)
  have h3: "inv (new10 True False) \<and> length hex_abcdef \<le> length (buffer (new10 True False))"
    by (simp add: new10_eq inv_def hex_abcdef_def)
  show ?thesis
    using h1 h2 h3 C5_strict_reject_is_atomic [OF h1 h2] by blast
qed

subsection \<open>The constructor\<close>

text \<open>
  C9, as the claim states it, fails: \<^verbatim>\<open>new RingBuffer(0)\<close> returns a ring buffer with an
  empty buffer, whatever memory the platform has to give.
\<close>

theorem C9_counterexample:
  "RingBuffer_new 9007199254740991 0 0 False False (\<lambda>i. 0)
     = Inr \<lparr>buffer = [], offset = 0, strict = False, safe = False, totalOffset = 0\<rparr>"
  by (simp add: RingBuffer_new_def allocUnsafe_def)

text \<open>
  C9, amended. The constructor has no check of its own: it fails exactly when the
  allocation of the buffer fails, and with its error. So it fails for every negative size;
  it succeeds for size 0, with an empty buffer; for a positive size it succeeds exactly when
  the size is at most the largest buffer length and the platform grants that much memory.
  A construction that succeeds returns a ring buffer whose buffer has that size, with
  offset 0, total offset 0 and the two flags as given; one that fails returns no ring
  buffer.
\<close>

theorem C9_constructor_fails_only_with_the_allocation:
  "(isl (RingBuffer_new kMaxLength avail sz strict_flag safe_flag mem)
      \<longleftrightarrow> isl (allocUnsafe kMaxLength avail sz mem))
   \<and> (\<forall>e. allocUnsafe kMaxLength avail sz mem = Inl e \<longrightarrow>
          RingBuffer_new kMaxLength avail sz strict_flag safe_flag mem = Inl e)
   \<and> (sz < 0 \<longrightarrow> RingBuffer_new kMaxLength avail sz strict_flag safe_flag mem = Inl OutOfRange)
   \<and> (sz = 0 \<and> 0 \<le> kMaxLength \<longrightarrow>
          RingBuffer_new kMaxLength avail sz strict_flag safe_flag mem
            = Inr \<lparr>buffer = [], offset = 0, strict = strict_flag, safe = safe_flag,
                   totalOffset = 0\<rparr>)
   \<and> (0 < sz \<longrightarrow>
          (isl (RingBuffer_new kMaxLength avail sz strict_flag safe_flag mem)
             \<longleftrightarrow> kMaxLength < sz \<or> avail < sz))
   \<and> (\<forall>rb. RingBuffer_new kMaxLength avail sz strict_flag safe_flag mem = Inr rb \<longrightarrow>
          0 \<le> sz \<and> length (buffer rb) = nat sz \<and> buffer rb = map mem [0..<nat sz]
          \<and> offset rb = 0 \<and> totalOffset rb = 0
          \<and> strict rb = strict_flag \<and> safe rb = safe_flag)"
  by (auto simp add: RingBuffer_new_def allocUnsafe_def split: sum.splits if_splits)

theorem C9_constructor_fails_only_with_the_allocation_witness:
  "allocUnsafe 9007199254740991 1073741824 (- 1) (\<lambda>i. 0) = Inl OutOfRange
   \<and> RingBuffer_new 9007199254740991 1073741824 (- 1) False False (\<lambda>i. 0) = Inl OutOfRange
   \<and> allocUnsafe 9007199254740991 1073741824 1099511627776 (\<lambda>i. 0) = Inl AllocationFailed
   \<and> RingBuffer_new 9007199254740991 1073741824 1099511627776 False False (\<lambda>i. 0)
       = Inl AllocationFailed
   \<and> isl (RingBuffer_new 9007199254740991 1073741824 1099511627776 False False (\<lambda>i. 0))
   \<and> RingBuffer_new 9007199254740991 1073741824 0 True True (\<lambda>i. 0)
       = Inr \<lparr>buffer = [], offset = 0, strict = True, safe = True, totalOffset = 0\<rparr>
   \<and> RingBuffer_new 9007199254740991 1073741824 10 False True (\<lambda>i. 0) = Inr (new10 False True)
   \<and> length (buffer (new10 False True)) = nat 10 \<and> offset (new10 False True) = 0
   \<and> totalOffset (new10 False True) = 0
   \<and> strict (new10 False True) = False \<and> safe (new10 False True) = True"
proof -
  have a1: "allocUnsafe 9007199254740991 1073741824 (- 1) (\<lambda>i. 0) = Inl OutOfRange"
    and a2: "allocUnsafe 9007199254740991 1073741824 1099511627776 (\<lambda>i. 0)
       = Inl AllocationFailed"
    by (simp_all add: allocUnsafe_def)
  have n: "RingBuffer_new 9007199254740991 1073741824 10 False True (\<lambda>i. 0)
       = Inr (new10 False True)"
    by (simp add: new10_def RingBuffer_new_def allocUnsafe_def)
  have p: "(0::int) < 1099511627776" "(1073741824::int) < 1099511627776"
    and z: "(0::int) = 0 \<and> (0::int) \<le> 9007199254740991" by simp_all
  have r1: "RingBuffer_new 9007199254740991 1073741824 (- 1) False False (\<lambda>i. 0)
      = Inl OutOfRange"
    using a1 C9_constructor_fails_only_with_the_allocation
        [of 9007199254740991 1073741824 "- 1" False False "\<lambda>i. 0"]
    by blast
  have r2: "RingBuffer_new 9007199254740991 1073741824 1099511627776 False False (\<lambda>i. 0)
      = Inl AllocationFailed"
    and r3: "isl (RingBuffer_new 9007199254740991 1073741824 1099511627776 False False (\<lambda>i. 0))"
    using a2 p C9_constructor_fails_only_with_the_allocation
        [of 9007199254740991 1073741824 1099511627776 False False "\<lambda>i. 0"]
    by blast+
  have r4: "RingBuffer_new 9007199254740991 1073741824 0 True True (\<lambda>i. 0)
       = Inr \<lparr>buffer = [], offset = 0, strict = True, safe = True, totalOffset = 0\<rparr>"
    using z C9_constructor_fails_only_with_the_allocation
        [of 9007199254740991 1073741824 0 True True "\<lambda>i. 0"]
    by blast
  have r5: "length (buffer (new10 False True)) = nat 10 \<and> offset (new10 False True) = 0
     \<and> totalOffset (new10 False True) = 0
     \<and> strict (new10 False True) = False \<and> safe (new10 False True) = True"
    using n C9_constructor_fails_only_with_the_allocation
        [of 9007199254740991 1073741824 10 False True "\<lambda>i. 0"]
    by blast
  from a1 a2 n r1 r2 r3 r4 r5 show ?thesis by blast
qed

subsection \<open>The offset\<close>

text \<open>
  C4, as the claim states it, fails: after a write that fills the buffer exactly, the offset
  is the length of the buffer, not below it.
\<close>

theorem C4_counterexample:
  "\<not> offset (writes (new10 True False) [hex_0123456789abcdeffedc])
       < length (buffer (writes (new10 True False) [hex_0123456789abcdeffedc]))"
  unfolding after_full by simp

text \<open>
  C4, amended. For every ring buffer the constructor returns and every sequence of calls of
  \<^verbatim>\<open>write\<close>, returning or throwing, the offset is at most the length of the buffer,
  and the buffer keeps the length it was allocated with. A write that fills the buffer
  exactly leaves the offset at the length of the buffer, and the next write of a chunk that
  is not empty and no longer than the buffer takes the wrapping branch with nothing
  remaining: its view is a first segment of length 0 at the end of the buffer and the
  chunk from 0 on, and the offset is the length of the chunk afterwards.
\<close>

theorem C4_offset_within_buffer:
  assumes "RingBuffer_new kMaxLength avail sz strict_flag safe_flag mem = Inr rb"
  shows "offset (writes rb cs) \<le> length (buffer (writes rb cs))
     \<and> length (buffer (writes rb cs)) = nat sz
     \<and> (offset (writes rb cs) + length chunk = nat sz \<longrightarrow>
          offset (writes rb (cs @ [chunk])) = nat sz
          \<and> (\<forall>chunk2. chunk2 \<noteq> [] \<and> length chunk2 \<le> nat sz \<longrightarrow>
                fst (write_priv (writes rb (cs @ [chunk])) chunk2)
                  = Inr (BufferList [(nat sz, 0), (0, length chunk2)])
                \<and> offset (writes rb (cs @ [chunk, chunk2])) = length chunk2))"
proof -
  let ?rb = "writes rb cs"
  have i: "inv ?rb" and l: "length (buffer ?rb) = nat sz"
    using RingBuffer_new_inv [OF assms] by (simp_all add: writes_inv writes_length)
  have full: "offset (writes rb (cs @ [chunk])) = nat sz"
     and wrap: "\<forall>chunk2. chunk2 \<noteq> [] \<and> length chunk2 \<le> nat sz \<longrightarrow>
                fst (write_priv (writes rb (cs @ [chunk])) chunk2)
                  = Inr (BufferList [(nat sz, 0), (0, length chunk2)])
                \<and> offset (writes rb (cs @ [chunk, chunk2])) = length chunk2"
    if fill: "offset ?rb + length chunk = nat sz"
  proof -
    let ?rb1 = "writes rb (cs @ [chunk])"
    have rb1: "?rb1 = write_state ?rb chunk" by (simp add: writes_append)
    have n: "length chunk \<le> length (buffer ?rb)" using fill l by simp
    have o1: "offset ?rb1 = nat sz"
      unfolding rb1 using fill l write_priv_offset [OF i n]
      by (simp add: write_state_def write_pub_offset)
    have i1: "inv ?rb1" and l1: "length (buffer ?rb1) = nat sz"
      unfolding rb1 using i l by (simp_all add: write_state_inv write_state_length)
    show "offset ?rb1 = nat sz" by (rule o1)
    show "\<forall>chunk2. chunk2 \<noteq> [] \<and> length chunk2 \<le> nat sz \<longrightarrow>
                fst (write_priv ?rb1 chunk2)
                  = Inr (BufferList [(nat sz, 0), (0, length chunk2)])
                \<and> offset (writes rb (cs @ [chunk, chunk2])) = length chunk2"
    proof (intro allI impI)
      fix chunk2 :: "byte list"
      assume c2: "chunk2 \<noteq> [] \<and> length chunk2 \<le> nat sz"
      have rb2: "writes rb (cs @ [chunk, chunk2]) = write_state ?rb1 chunk2"
        using writes_append [of rb "cs @ [chunk]" "[chunk2]"] by simp
      have n2: "length chunk2 \<le> length (buffer ?rb1)" using c2 l1 by simp
      have w: "length (buffer ?rb1) < offset ?rb1 + length chunk2"
        using c2 o1 l1 by simp
      have io: "offset ?rb1 \<le> length (buffer ?rb1)" using i1 by (simp add: inv_def)
      show "fst (write_priv ?rb1 chunk2) = Inr (BufferList [(nat sz, 0), (0, length chunk2)])
          \<and> offset (writes rb (cs @ [chunk, chunk2])) = length chunk2"
        unfolding rb2 write_state_def write_pub_offset write_priv_wrap [OF n2 w io]
        using o1 l1 by simp
    qed
  qed
  from i l full wrap show ?thesis by (simp add: inv_def)
qed

theorem C4_offset_within_buffer_witness:
  "RingBuffer_new 9007199254740991 1073741824 10 False False (\<lambda>i. 0) = Inr (new10 False False)
   \<and> offset (writes (new10 False False) []) + length hex_0123456789abcdeffedc = nat 10
   \<and> hex_ba \<noteq> [] \<and> length hex_ba \<le> nat 10
   \<and> offset (writes (new10 False False) []) \<le> length (buffer (writes (new10 False False) []))
   \<and> length (buffer (writes (new10 False False) [])) = nat 10
   \<and> offset (writes (new10 False False) ([] @ [hex_0123456789abcdeffedc])) = nat 10
   \<and> fst (write_priv (writes (new10 False False) ([] @ [hex_0123456789abcdeffedc])) hex_ba)
       = Inr (BufferList [(nat 10, 0), (0, length hex_ba)])
   \<and> offset (writes (new10 False False) ([] @ [hex_0123456789abcdeffedc, hex_ba]))
       = length hex_ba"
proof -
  have h: "RingBuffer_new 9007199254740991 1073741824 10 False False (\<lambda>i. 0)
      = Inr (new10 False False)"
    by (simp add: new10_def RingBuffer_new_def allocUnsafe_def)
  have f: "offset (writes (new10 False False) []) + length hex_0123456789abcdeffedc = nat 10"
    by (simp add: new10_eq hex_0123456789abcdeffedc_def)
  have c: "hex_ba \<noteq> [] \<and> length hex_ba \<le> nat 10"
    by (simp add: hex_ba_def)
  show ?thesis
    using h f c
      C4_offset_within_buffer [OF h, of "[]" hex_0123456789abcdeffedc]
    by blast
qed

subsection \<open>The total offset of safe mode\<close>

text \<open>
  C6, as the claim states it, fails: a safe, non-strict buffer of 10 bytes that is given a
  chunk of 16 bytes adds 16 to the total offset, not the 10 bytes it keeps.
\<close>

theorem C6_counterexample:
  "safe (new10 False True)
   \<and> totalOffset (snd (write_pub (new10 False True) hex_abcdef12345678900987654321fedcba)) = 16
   \<and> totalOffset (new10 False True)
       + min (length hex_abcdef12345678900987654321fedcba) (length (buffer (new10 False True)))
       = 10"
  by (simp add: new10_eq write_pub_oversize hex_abcdef12345678900987654321fedcba_def dbl_exact)

text \<open>
  C6, amended. The total offset is 0 after construction. In safe mode a call of
  \<^verbatim>\<open>write\<close> that returns adds the length of the chunk to it, whatever part of the
  chunk the buffer keeps, as a sum of doubles: the new total offset is the old one plus the
  length of the chunk as long as this sum is at most \<open>2 ^ 53\<close>, and the double nearest to
  the sum beyond (at \<open>2 ^ 53\<close> a chunk of one byte leaves the total offset as it is). A
  call that throws leaves the total offset as it was.
\<close>

theorem C6_total_offset_counts_chunk_length:
  "(RingBuffer_new kMaxLength avail sz strict_flag safe_flag mem = Inr rb0 \<longrightarrow>
      totalOffset rb0 = 0)
   \<and> (safe rb \<longrightarrow>
        totalOffset (snd (write_pub rb chunk)) =
          (if isl (fst (write_pub rb chunk)) then totalOffset rb
           else dbl (totalOffset rb + length chunk)))
   \<and> (safe rb \<and> \<not> isl (fst (write_pub rb chunk))
        \<and> totalOffset rb + length chunk \<le> 2 ^ 53 \<longrightarrow>
        totalOffset (snd (write_pub rb chunk)) = totalOffset rb + length chunk)
   \<and> (safe rb \<and> \<not> isl (fst (write_pub rb chunk))
        \<and> totalOffset rb = 2 ^ 53 \<and> length chunk = 1 \<longrightarrow>
        totalOffset (snd (write_pub rb chunk)) = totalOffset rb)"
proof -
  have c: "RingBuffer_new kMaxLength avail sz strict_flag safe_flag mem = Inr rb0 \<longrightarrow>
      totalOffset rb0 = 0"
    by (auto simp add: RingBuffer_new_def allocUnsafe_def split: if_splits)
  have w: "safe rb \<longrightarrow>
        totalOffset (snd (write_pub rb chunk)) =
          (if isl (fst (write_pub rb chunk)) then totalOffset rb
           else dbl (totalOffset rb + length chunk))"
    by (simp add: write_pub_totalOffset)
  have e: "totalOffset rb + length chunk \<le> 2 ^ 53 \<longrightarrow>
      dbl (totalOffset rb + length chunk) = totalOffset rb + length chunk"
    using dbl_exact [of "totalOffset rb + length chunk"] by blast
  have s: "totalOffset rb = 2 ^ 53 \<and> length chunk = 1 \<longrightarrow>
      dbl (totalOffset rb + length chunk) = totalOffset rb"
    using dbl_stuck by auto
  from c w e s show ?thesis by presburger
qed

theorem C6_total_offset_counts_chunk_length_witness:
  "RingBuffer_new 9007199254740991 1073741824 10 False True (\<lambda>i. 0) = Inr (new10 False True)
   \<and> totalOffset (new10 False True) = 0
   \<and> safe (new10 False True)
   \<and> \<not> isl (fst (write_pub (new10 False True) hex_abcdef12345678900987654321fedcba))
   \<and> totalOffset (new10 False True) + length hex_abcdef12345678900987654321fedcba \<le> 2 ^ 53
   \<and> totalOffset (snd (write_pub (new10 False True) hex_abcdef12345678900987654321fedcba))
       = totalOffset (new10 False True) + length hex_abcdef12345678900987654321fedcba
   \<and> safe ((new10 False True)\<lparr>totalOffset := 2 ^ 53\<rparr>)
   \<and> \<not> isl (fst (write_pub ((new10 False True)\<lparr>totalOffset := 2 ^ 53\<rparr>) hex_ba))
   \<and> totalOffset ((new10 False True)\<lparr>totalOffset := 2 ^ 53\<rparr>) = 2 ^ 53
   \<and> length hex_ba = 1
   \<and> totalOffset (snd (write_pub ((new10 False True)\<lparr>totalOffset := 2 ^ 53\<rparr>) hex_ba))
       = totalOffset ((new10 False True)\<lparr>totalOffset := 2 ^ 53\<rparr>)"
proof -
  let ?big = "(new10 False True)\<lparr>totalOffset := 2 ^ 53\<rparr>"
  have h: "RingBuffer_new 9007199254740991 1073741824 10 False True (\<lambda>i. 0)
      = Inr (new10 False True)"
    by (simp add: new10_def RingBuffer_new_def allocUnsafe_def)
  have s: "safe (new10 False True)" by (simp add: new10_eq)
  have r: "\<not> isl (fst (write_pub (new10 False True) hex_abcdef12345678900987654321fedcba))"
    by (simp add: new10_eq write_pub_oversize hex_abcdef12345678900987654321fedcba_def)
  have le: "totalOffset (new10 False True) + length hex_abcdef12345678900987654321fedcba
      \<le> 2 ^ 53"
    by (simp add: new10_eq hex_abcdef12345678900987654321fedcba_def)
  have sb: "safe ?big" and tb: "totalOffset ?big = 2 ^ 53" by (simp_all add: new10_eq)
  have lb: "length hex_ba = 1" by (simp add: hex_ba_def)
  have rb: "\<not> isl (fst (write_pub ?big hex_ba))"
    by (intro write_pub_ok) (simp_all add: new10_eq inv_def hex_ba_def)
  show ?thesis
    using h s r le sb tb lb rb
      C6_total_offset_counts_chunk_length [of 9007199254740991 1073741824 10 False True
        "\<lambda>i. 0" "new10 False True" "new10 False True" hex_abcdef12345678900987654321fedcba]
      C6_total_offset_counts_chunk_length [of 9007199254740991 1073741824 10 False True
        "\<lambda>i. 0" "new10 False True" ?big hex_ba]
    by blast
qed

subsection \<open>Telling a wrapped view from a contiguous one\<close>

text \<open>
  C8, as the claim states it, fails: in safe mode a write that does not wrap returns a
  proxy over a buffer list, as a write that wraps does, and \<^verbatim>\<open>Buffer.isBuffer\<close> is
  false for it.
\<close>

theorem C8_counterexample:
  "safe (new10 False True)
   \<and> \<not> (length (buffer (new10 False True)) < offset (new10 False True) + length hex_abcdef)
   \<and> fst (write_pub (new10 False True) hex_abcdef) = Inr (Proxy [(0, 3)] 10)
   \<and> \<not> isBuffer (projr (fst (write_pub (new10 False True) hex_abcdef)))"
  by (simp add: new10_eq write_pub_fit hex_abcdef_def dbl_exact)

text \<open>
  C8, amended. Without safe mode the view a write returns is a plain buffer exactly when
  the write did not wrap, and a buffer list when it did. In safe mode every view is a proxy
  over a buffer list, whether the write wrapped or not, so the check does not tell the two
  apart there.
\<close>

theorem C8_kind_of_view:
  assumes "inv rb" "write_pub rb chunk = (Inr v, rb')"
  shows "(\<not> safe rb \<longrightarrow>
            (isBuffer v \<longleftrightarrow>
               \<not> (length chunk \<le> length (buffer rb)
                  \<and> length (buffer rb) < offset rb + length chunk)))
     \<and> (safe rb \<longrightarrow> \<not> isBuffer v)"
proof (cases rule: write_priv_cases [where rb = rb and chunk = chunk])
  case reject
  with assms show ?thesis by (simp add: write_pub_reject)
next
  case oversize
  with assms show ?thesis by (auto simp add: write_pub_oversize)
next
  case broken
  with assms show ?thesis by (simp add: inv_def)
next
  case wrap
  with assms show ?thesis by (auto simp add: write_pub_wrap)
next
  case fit
  with assms show ?thesis by (auto simp add: write_pub_fit)
qed

theorem C8_kind_of_view_witness:
  "inv (writes (new10 False False) [hex_abcdef, hex_123456, hex_7890fe])
   \<and> write_pub (writes (new10 False False) [hex_abcdef, hex_123456, hex_7890fe]) hex_dcba09
       = (Inr (BufferList [(9, 1), (0, 2)]),
          writes (new10 False False) [hex_abcdef, hex_123456, hex_7890fe, hex_dcba09])
   \<and> \<not> safe (writes (new10 False False) [hex_abcdef, hex_123456, hex_7890fe])
   \<and> \<not> isBuffer (BufferList [(9, 1), (0, 2)])
   \<and> length hex_dcba09 \<le> length (buffer (writes (new10 False False) [hex_abcdef, hex_123456, hex_7890fe]))
   \<and> length (buffer (writes (new10 False False) [hex_abcdef, hex_123456, hex_7890fe]))
       < offset (writes (new10 False False) [hex_abcdef, hex_123456, hex_7890fe]) + length hex_dcba09"
proof -
  let ?rb = "writes (new10 False False) [hex_abcdef, hex_123456, hex_7890fe]"
  have h1: "inv ?rb" unfolding after3 by (simp add: inv_def)
  have w: "writes (new10 False False) [hex_abcdef, hex_123456, hex_7890fe, hex_dcba09]
             = snd (write_pub ?rb hex_dcba09)"
    by (simp add: write_state_def)
  have v: "fst (write_pub ?rb hex_dcba09) = Inr (BufferList [(9, 1), (0, 2)])"
    unfolding after3 by (simp add: write_pub_wrap inv_def hex_dcba09_def)
  have h2: "write_pub ?rb hex_dcba09 = (Inr (BufferList [(9, 1), (0, 2)]),
          writes (new10 False False) [hex_abcdef, hex_123456, hex_7890fe, hex_dcba09])"
    unfolding w using v by (simp add: prod_eq_iff)
  have s: "\<not> safe ?rb" unfolding after3 by simp
  have nb: "\<not> isBuffer (BufferList [(9, 1), (0, 2)])" by simp
  show ?thesis
    using h1 h2 s nb C8_kind_of_view [OF h1 h2] by blast
qed


subsection \<open>A chunk longer than the buffer\<close>

text \<open>
  C3. A non-strict write of a chunk longer than the buffer copies the last
  \<open>capacity\<close> bytes of the chunk to the start of the buffer and returns the whole
  buffer (\<open>write_pub_oversize_keeps\<close>), but it leaves the offset where it was, where the
  claim has it set to 0. On a buffer of 10 bytes, after a write of 3 bytes, the write of
  16 bytes leaves the offset at 3, and the next write of one byte lands on the fourth of
  the bytes just kept, not on the oldest.
\<close>

theorem C3_oversized_write_keeps_offset:
  "write_pub (writes (new10 False False) [hex_abcdef]) hex_abcdef12345678900987654321fedcba
     = (Inr (Buffer (0, 10)),
        \<lparr>buffer = [0x78, 0x90, 0x09, 0x87, 0x65, 0x43, 0x21, 0xfe, 0xdc, 0xba], offset = 3,
          strict = False, safe = False, totalOffset = 0\<rparr>)
   \<and> buffer (writes (new10 False False)
               [hex_abcdef, hex_abcdef12345678900987654321fedcba, hex_ba])
     = [0x78, 0x90, 0x09, 0xba, 0x65, 0x43, 0x21, 0xfe, 0xdc, 0xba]"
  by (simp add: new10_eq write_state_fit write_state_oversize write_pub_oversize hex_simps)

subsection \<open>The example of the repository\<close>

text \<open>
  C7. On a buffer of 10 bytes, neither strict nor safe, on a platform that can allocate
  10 bytes, whatever the memory held before:
  after the writes of \<^verbatim>\<open>abcdef\<close>, \<^verbatim>\<open>123456\<close>, \<^verbatim>\<open>7890fe\<close> and \<^verbatim>\<open>dcba09\<close> the view of
  the fourth write reads \<^verbatim>\<open>dcba09\<close> and the view of the first, which read \<^verbatim>\<open>abcdef\<close>
  when it was returned, reads \<^verbatim>\<open>ba09ef\<close>: a view reads the live storage at its offsets.
\<close>

theorem C7_partial_overwrite_shows_through_old_view:
  assumes "10 \<le> kMaxLength" "10 \<le> avail"
  shows "\<exists>rb0 v1 rb1 v2 rb2 v3 rb3 v4 rb4.
      RingBuffer_new kMaxLength avail 10 False False mem = Inr rb0
    \<and> write_pub rb0 hex_abcdef = (Inr v1, rb1)
    \<and> write_pub rb1 hex_123456 = (Inr v2, rb2)
    \<and> write_pub rb2 hex_7890fe = (Inr v3, rb3)
    \<and> write_pub rb3 hex_dcba09 = (Inr v4, rb4)
    \<and> view_toString_hex rb1 v1 = Inr ''abcdef''
    \<and> view_toString_hex rb4 v4 = Inr ''dcba09''
    \<and> view_toString_hex rb4 v1 = Inr ''ba09ef''
    \<and> v1 = Buffer (0, 3) \<and> v4 = BufferList [(9, 1), (0, 2)]"
  using assms
  by (simp add: RingBuffer_new_def allocUnsafe_def upt_conv_Cons write_pub_fit write_pub_wrap
      inv_def hex_simps view_toString_hex_def toString_hex_Cons hex_digit_def slice_of_def
      bl_bytes_def)

theorem C7_partial_overwrite_shows_through_old_view_witness:
  "(10::int) \<le> 9007199254740991 \<and> (10::int) \<le> 1073741824
   \<and> (\<exists>rb0 v1 rb1 v2 rb2 v3 rb3 v4 rb4.
      RingBuffer_new 9007199254740991 1073741824 10 False False (\<lambda>i. 0) = Inr rb0
    \<and> write_pub rb0 hex_abcdef = (Inr v1, rb1)
    \<and> write_pub rb1 hex_123456 = (Inr v2, rb2)
    \<and> write_pub rb2 hex_7890fe = (Inr v3, rb3)
    \<and> write_pub rb3 hex_dcba09 = (Inr v4, rb4)
    \<and> view_toString_hex rb1 v1 = Inr ''abcdef''
    \<and> view_toString_hex rb4 v4 = Inr ''dcba09''
    \<and> view_toString_hex rb4 v1 = Inr ''ba09ef''
    \<and> v1 = Buffer (0, 3) \<and> v4 = BufferList [(9, 1), (0, 2)])"
proof -
  have h: "(10::int) \<le> 9007199254740991" and a: "(10::int) \<le> 1073741824" by simp_all
  show ?thesis
    using h a C7_partial_overwrite_shows_through_old_view [OF h a, of "\<lambda>i. 0"] by blast
qed





subsection \<open>Safe mode: reading a view\<close>




end
